theory Spec2Isabelle
  imports Main "HOL-Library.Multiset"
begin

section \<open>Crazy Ace: the game state machine of src/App.tsx\<close>

text \<open>
  The component \<open>App\<close> keeps the whole game in eleven \<open>useState\<close> cells and changes
  them in \<open>initGame\<close>, in the click handlers \<open>handlePlayerPlay\<close>, \<open>handleSuitPick\<close>
  and \<open>handleDraw\<close>, and in the timer callback of the "AI Logic" effect. Each of them is
  embedded as a function from the state of the render it closes over to the state after
  its setter calls, applied in the order the source makes them. A handler is always the
  one of the latest render, so each call reads the state the previous call left.
\<close>

subsection \<open>Cards\<close>

text \<open>
  \<open>Card\<close>, \<open>Suit\<close> and \<open>Rank\<close> are imported from \<open>./types\<close>. App.tsx fixes
  what is used here: a card has the fields \<open>id\<close>, \<open>suit\<close> and \<open>rank\<close>; the suits
  are the four keys of \<open>CARD_COLORS\<close>; a rank is a string compared with \<open>'A'\<close>. The
  type of \<open>id\<close> is only ever compared, so it stays a type parameter.
\<close>

datatype suit = Hearts | Diamonds | Clubs | Spades

type_synonym rank = string

record 'i card =
  cid :: 'i
  suit :: suit
  rank :: rank

text \<open>A suit inside a template string prints as its own text.\<close>

fun suit_str :: "suit \<Rightarrow> string" where
  "suit_str Hearts = ''hearts''"
| "suit_str Diamonds = ''diamonds''"
| "suit_str Clubs = ''clubs''"
| "suit_str Spades = ''spades''"

subsection \<open>The state\<close>

datatype turn_owner = Player | Ai

datatype game_status = Start | Playing | Won | Lost

record 'i game =
  deck :: "'i card list"
  playerHand :: "'i card list"
  aiHand :: "'i card list"
  discardPile :: "'i card list"
  currentSuit :: "suit option"
  turn :: turn_owner
  gameStatus :: game_status
  showSuitPicker :: bool
  pendingAceCard :: "'i card option"
  message :: string
  isAiThinking :: bool

text \<open>The initial values of the \<open>useState\<close> calls (lines 27 to 37).\<close>

definition app_init :: "'i game" where
  "app_init =
     \<lparr> deck = [], playerHand = [], aiHand = [], discardPile = [],
       currentSuit = None, turn = Player, gameStatus = Start,
       showSuitPicker = False, pendingAceCard = None,
       message = ''Welcome to Crazy Ace!'', isAiThinking = False \<rparr>"

subsection \<open>Dealing\<close>

text \<open>
  \<open>Array.prototype.slice(a, b)\<close> for indices that are not negative: the elements from
  index \<open>a\<close> up to, not including, \<open>b\<close>, cut at the end of the array; \<open>slice(a)\<close>
  runs to the end.
\<close>

definition slice :: "nat \<Rightarrow> nat \<Rightarrow> 'a list \<Rightarrow> 'a list" where
  "slice a b xs = take (b - a) (drop a xs)"

definition slice_from :: "nat \<Rightarrow> 'a list \<Rightarrow> 'a list" where
  "slice_from a xs = drop a xs"

datatype error = TypeError

text \<open>
  \<open>initGame\<close> (lines 40 to 58). \<open>createDeck\<close> and \<open>shuffleDeck\<close> live in
  \<open>./types\<close>, so the shuffled deck \<open>fullDeck\<close> is a parameter. When it has no index
  20, \<open>fullDeck[20]\<close> is \<open>undefined\<close> and reading \<open>initialDiscard.suit\<close> throws.
  Nothing of the previous state is read.
\<close>

definition initGame :: "'i card list \<Rightarrow> 'i game \<Rightarrow> error + 'i game" where
  "initGame fullDeck g =
     (let pHand = slice 0 10 fullDeck;
          aHand = slice 10 20 fullDeck;
          remainingDeck = slice_from 21 fullDeck
      in if length fullDeck \<le> 20 then Inl TypeError
         else
           (let initialDiscard = fullDeck ! 20
            in Inr (g\<lparr> playerHand := pHand,
                       aiHand := aHand,
                       discardPile := [initialDiscard],
                       deck := remainingDeck,
                       currentSuit := Some (suit initialDiscard),
                       turn := Player,
                       gameStatus := Playing,
                       showSuitPicker := False,
                       pendingAceCard := None,
                       message := ''Your turn! Match the suit or rank.'',
                       isAiThinking := False \<rparr>)))"

subsection \<open>Legality and the terminal check\<close>

text \<open>\<open>topDiscard\<close> (line 68): the last element, \<open>undefined\<close> on the empty pile.\<close>

definition topDiscard :: "'i game \<Rightarrow> 'i card option" where
  "topDiscard g = (if discardPile g = [] then None else Some (last (discardPile g)))"

text \<open>\<open>canPlay\<close> (lines 70 to 74).\<close>

definition canPlay :: "'i game \<Rightarrow> 'i card \<Rightarrow> bool" where
  "canPlay g c =
     (case topDiscard g of
        None \<Rightarrow> False
      | Some t \<Rightarrow>
          if rank c = ''A'' then True
          else Some (suit c) = currentSuit g \<or> rank c = rank t)"

text \<open>
  \<open>checkGameOver\<close> (lines 76 to 94) returns whether the game is over, with the state
  after its setters. The \<open>confetti\<close> call draws on the page and touches no state.
\<close>

definition checkGameOver :: "'i card list \<Rightarrow> 'i card list \<Rightarrow> 'i game \<Rightarrow> bool \<times> 'i game" where
  "checkGameOver pHand aHand g =
     (if length pHand = 0 then
        (True, g\<lparr> gameStatus := Lost,
                  message := ''You cleared your hand first... You LOSE!'' \<rparr>)
      else if length aHand = 0 then
        (True, g\<lparr> gameStatus := Won,
                  message := ''AI cleared its hand first... You WIN!'' \<rparr>)
      else (False, g))"

subsection \<open>The human's intents\<close>

text \<open>\<open>handlePlayerPlay\<close> (lines 96 to 114).\<close>

definition handlePlayerPlay :: "'i card \<Rightarrow> 'i game \<Rightarrow> 'i game" where
  "handlePlayerPlay c g =
     (if turn g \<noteq> Player \<or> gameStatus g \<noteq> Playing \<or> \<not> canPlay g c then g
      else if rank c = ''A'' then
        g\<lparr> pendingAceCard := Some c, showSuitPicker := True \<rparr>
      else
        (let newHand = filter (\<lambda>x. cid x \<noteq> cid c) (playerHand g);
             g1 = g\<lparr> playerHand := newHand,
                     discardPile := discardPile g @ [c],
                     currentSuit := Some (suit c) \<rparr>
         in case checkGameOver newHand (aiHand g) g1 of
              (over, g2) \<Rightarrow>
                if \<not> over then g2\<lparr> turn := Ai, message := ''AI is thinking...'' \<rparr>
                else g2))"

text \<open>\<open>handleSuitPick\<close> (lines 116 to 130).\<close>

definition handleSuitPick :: "suit \<Rightarrow> 'i game \<Rightarrow> 'i game" where
  "handleSuitPick s g =
     (case pendingAceCard g of
        None \<Rightarrow> g
      | Some p \<Rightarrow>
          (let newHand = filter (\<lambda>x. cid x \<noteq> cid p) (playerHand g);
               g1 = g\<lparr> playerHand := newHand,
                       discardPile := discardPile g @ [p],
                       currentSuit := Some s,
                       showSuitPicker := False,
                       pendingAceCard := None \<rparr>
           in case checkGameOver newHand (aiHand g) g1 of
                (over, g2) \<Rightarrow>
                  if \<not> over then
                    g2\<lparr> turn := Ai,
                        message := ''You changed suit to '' @ suit_str s
                                     @ ''. AI'' @ [CHR 0x27] @ ''s turn.'' \<rparr>
                  else g2))"

text \<open>\<open>handleDraw\<close> (lines 132 to 156).\<close>

definition handleDraw :: "'i game \<Rightarrow> 'i game" where
  "handleDraw g =
     (if turn g \<noteq> Player \<or> gameStatus g \<noteq> Playing then g
      else
        (case deck g of
           [] \<Rightarrow> g\<lparr> message := ''Deck is empty! Skipping turn.'', turn := Ai \<rparr>
         | newCard # newDeck \<Rightarrow>
             (let newHand = playerHand g @ [newCard];
                  g1 = g\<lparr> playerHand := newHand,
                          deck := newDeck,
                          message := ''You drew a '' @ rank newCard @ '' of ''
                                       @ suit_str (suit newCard) @ ''.'' \<rparr>
              in if \<not> canPlay g newCard then g1\<lparr> turn := Ai \<rparr> else g1)))"

subsection \<open>The opponent\<close>

text \<open>
  The suit tally of the opponent (lines 176 to 179): \<open>suitCounts\<close> is an object used
  as a dictionary, filled by \<open>forEach\<close>. \<open>Object.keys\<close> lists string keys in the
  order they were first written, so the object is an association list: a key that is
  there is updated in place, a new key goes to the end.
\<close>

fun bumpCount :: "(suit \<times> nat) list \<Rightarrow> suit \<Rightarrow> (suit \<times> nat) list" where
  "bumpCount [] s = [(s, 0 + 1)]"
| "bumpCount ((k, n) # kvs) s =
     (if k = s then (k, n + 1) # kvs else (k, n) # bumpCount kvs s)"

definition suitCounts :: "'i card list \<Rightarrow> (suit \<times> nat) list" where
  "suitCounts hand = foldl bumpCount [] (map suit hand)"

text \<open>\<open>suitCounts[k]\<close>; the comparator only reads keys of the object.\<close>

definition countOf :: "(suit \<times> nat) list \<Rightarrow> suit \<Rightarrow> nat" where
  "countOf sc k = (case map_of sc k of Some n \<Rightarrow> n | None \<Rightarrow> 0)"

text \<open>
  \<open>bestSuit\<close> (line 180): the keys sorted with the comparator
  \<open>(a, b) => suitCounts[b] - suitCounts[a]\<close>, that is by falling count, and the first
  of them, or \<open>'hearts'\<close> when there is none. \<open>Array.prototype.sort\<close> is stable, and
  so is \<open>sort_key\<close>; sorting by the negated count gives the falling order.
\<close>

definition bestSuit :: "'i card list \<Rightarrow> suit" where
  "bestSuit hand =
     (let sc = suitCounts hand
      in case sort_key (\<lambda>k. - int (countOf sc k)) (map fst sc) of
           [] \<Rightarrow> Hearts
         | k # _ \<Rightarrow> k)"

text \<open>
  The choice of lines 167 and 168: the first playable card that is no Ace, or else
  \<open>playableCards[0]\<close>. It is only called on a list that is not empty.
\<close>

definition cardToPlay :: "'i card list \<Rightarrow> 'i card" where
  "cardToPlay playableCards =
     (case find (\<lambda>c. rank c \<noteq> ''A'') playableCards of
        Some nonAce \<Rightarrow> nonAce
      | None \<Rightarrow> hd playableCards)"

text \<open>
  The "AI Logic" effect (lines 159 to 218). The effect runs when \<open>turn\<close> is \<open>'ai'\<close>
  and the game is being played; its timer callback reads only state that is among the
  effect's dependencies, so it always sees the state of the latest render. The delay
  itself is not modelled: \<open>aiLogic\<close> is the state after the callback has run, and the
  state as it is when the effect does not run.
\<close>

definition aiLogic :: "'i game \<Rightarrow> 'i game" where
  "aiLogic g =
     (if turn g = Ai \<and> gameStatus g = Playing then
        (let playableCards = filter (canPlay g) (aiHand g);
             g' =
               (if length playableCards > 0 then
                  (let c = cardToPlay playableCards;
                       newAiHand = filter (\<lambda>x. cid x \<noteq> cid c) (aiHand g);
                       g1 = g\<lparr> aiHand := newAiHand,
                               discardPile := discardPile g @ [c] \<rparr>;
                       g2 =
                         (if rank c = ''A'' then
                            g1\<lparr> currentSuit := Some (bestSuit newAiHand),
                                message := ''AI played Ace and changed suit to ''
                                             @ suit_str (bestSuit newAiHand) @ ''!'' \<rparr>
                          else
                            g1\<lparr> currentSuit := Some (suit c),
                                message := ''AI played '' @ rank c @ '' of ''
                                             @ suit_str (suit c) @ ''.'' \<rparr>)
                   in case checkGameOver (playerHand g) newAiHand g2 of
                        (over, g3) \<Rightarrow> if \<not> over then g3\<lparr> turn := Player \<rparr> else g3)
                else
                  (case deck g of
                     newCard # newDeck \<Rightarrow>
                       (let g1 = g\<lparr> aiHand := aiHand g @ [newCard],
                                    deck := newDeck,
                                    message := ''AI had no moves and drew a card.'' \<rparr>
                        in if canPlay g newCard then g1\<lparr> turn := Player \<rparr>
                           else g1\<lparr> turn := Player \<rparr>)
                   | [] \<Rightarrow>
                       g\<lparr> message := ''AI has no moves and deck is empty. Skipping.'',
                          turn := Player \<rparr>))
         in g'\<lparr> isAiThinking := False \<rparr>)
      else g)"

subsection \<open>Runs of the game\<close>

text \<open>
  What can happen to a dealt game: the board renders one button per card of
  \<open>playerHand\<close> (lines 390 to 400), so a play names a card of the hand; the suit
  picker, the draw pile and the opponent's timer call their handlers. Nothing is assumed
  about which buttons are enabled: every handler may be called in every state.
\<close>

datatype 'i intent = PlayCard "'i card" | ChooseSuit suit | Draw | OpponentStep

fun step :: "'i intent \<Rightarrow> 'i game \<Rightarrow> 'i game" where
  "step (PlayCard c) g = (if c \<in> set (playerHand g) then handlePlayerPlay c g else g)"
| "step (ChooseSuit s) g = handleSuitPick s g"
| "step Draw g = handleDraw g"
| "step OpponentStep g = aiLogic g"

fun run :: "'i intent list \<Rightarrow> 'i game \<Rightarrow> 'i game" where
  "run [] g = g"
| "run (i # is) g = run is (step i g)"

text \<open>The four zones of cards, and what the dealt game keeps true of them.\<close>

definition zones :: "'i game \<Rightarrow> 'i card list" where
  "zones g = deck g @ playerHand g @ aiHand g @ discardPile g"

definition cards_invariant :: "'i game \<Rightarrow> bool" where
  "cards_invariant g \<longleftrightarrow>
     length (deck g) + length (playerHand g) + length (aiHand g)
       + length (discardPile g) = 52
     \<and> distinct (map cid (zones g))"

text \<open>
  The pending Ace is a card of the human's hand: the fact about \<open>pendingAceCard\<close> that
  makes \<open>handleSuitPick\<close> keep the zones intact.
\<close>

definition pending_ok :: "'i game \<Rightarrow> bool" where
  "pending_ok g \<longleftrightarrow>
     (case pendingAceCard g of
        None \<Rightarrow> True
      | Some p \<Rightarrow> p \<in> set (playerHand g) \<and> rank p = ''A'')"

definition game_ok :: "'i game \<Rightarrow> bool" where
  "game_ok g \<longleftrightarrow> cards_invariant g \<and> pending_ok g"

subsection \<open>Sample decks and positions\<close>

text \<open>
  Concrete inputs on which the theorems below are run. \<open>sample_deck\<close> is the 52 pairs of
  suit and rank, numbered from 0; the positions are small enough to trace by hand.
\<close>

definition mkCard :: "nat \<Rightarrow> suit \<Rightarrow> rank \<Rightarrow> nat card" where
  "mkCard i s r = \<lparr> cid = i, suit = s, rank = r \<rparr>"

definition sample_deck :: "nat card list" where
  "sample_deck =
     map (\<lambda>(i, s, r). mkCard i s r)
       (zip [0..<52]
          (List.product [Hearts, Diamonds, Clubs, Spades]
             [''A'', ''K'', ''Q'', ''J'', ''10'', ''9'', ''8'', ''7'', ''6'', ''5'',
              ''4'', ''3'', ''2'']))"

text \<open>
  A run on the game dealt from \<open>sample_deck\<close> (human: hearts from the Ace down to the
  5; opponent: hearts 4, 3, 2 and diamonds from the Ace down to the 8; discard: 7 of
  diamonds; the 6 of diamonds on top of the draw pile): a rank match, an opponent play,
  an Ace with its suit choice, the opponent's own Ace, two draws, a suit choice with
  no Ace pending, and one more play by each side.
\<close>

definition sample_intents :: "nat intent list" where
  "sample_intents =
     [PlayCard (mkCard 7 Hearts ''7''), OpponentStep,
      PlayCard (mkCard 0 Hearts ''A''), ChooseSuit Spades, OpponentStep,
      Draw, Draw, ChooseSuit Clubs, PlayCard (mkCard 21 Diamonds ''6''), OpponentStep]"

text \<open>
  The human holds the Ace of spades and the 7 of hearts, the top discard is the 7 of
  clubs, clubs are the suit to follow, and it is the human's turn.
\<close>

definition human_scene :: "nat game" where
  "human_scene =
     \<lparr> deck = [mkCard 20 Diamonds ''5'', mkCard 21 Clubs ''2''],
       playerHand = [mkCard 1 Spades ''A'', mkCard 2 Hearts ''7''],
       aiHand = [mkCard 3 Diamonds ''K'', mkCard 4 Hearts ''9''],
       discardPile = [mkCard 0 Clubs ''7''],
       currentSuit = Some Clubs, turn = Player, gameStatus = Playing,
       showSuitPicker = False, pendingAceCard = None,
       message = ''Your turn! Match the suit or rank.'', isAiThinking = False \<rparr>"

text \<open>The same position with nothing left to draw.\<close>

definition empty_deck_scene :: "nat game" where
  "empty_deck_scene = human_scene\<lparr> deck := [] \<rparr>"

text \<open>The human's last card, a king on a king.\<close>

definition last_card_scene :: "nat game" where
  "last_card_scene =
     human_scene\<lparr> playerHand := [mkCard 5 Diamonds ''K''],
                  discardPile := [mkCard 6 Spades ''K''],
                  currentSuit := Some Spades \<rparr>"

text \<open>
  The opponent to move on the 7 of clubs: with a playable Ace before a playable 9 of
  clubs; with an Ace as its only playable card; and with an Ace as its only card.
\<close>

definition ai_scene :: "nat game" where
  "ai_scene =
     human_scene\<lparr> turn := Ai,
                  aiHand := [mkCard 10 Diamonds ''A'', mkCard 11 Hearts ''3'',
                             mkCard 12 Clubs ''9'', mkCard 13 Clubs ''4''] \<rparr>"

definition ai_wild_scene :: "nat game" where
  "ai_wild_scene =
     human_scene\<lparr> turn := Ai,
                  aiHand := [mkCard 10 Diamonds ''A'', mkCard 11 Hearts ''3'',
                             mkCard 14 Spades ''4'', mkCard 15 Spades ''5''] \<rparr>"

definition ai_last_ace_scene :: "nat game" where
  "ai_last_ace_scene = human_scene\<lparr> turn := Ai, aiHand := [mkCard 10 Diamonds ''A''] \<rparr>"

section \<open>Properties\<close>

subsection \<open>Lists of cards\<close>

lemma filter_cid_remove1:
  "distinct (map cid xs) \<Longrightarrow> c \<in> set xs \<Longrightarrow> filter (\<lambda>x. cid x \<noteq> cid c) xs = remove1 c xs"
proof (induction xs)
  case Nil
  then show ?case by simp
next
  case (Cons a xs)
  show ?case
  proof (cases "a = c")
    case True
    with Cons.prems have "cid c \<notin> cid ` set xs" by simp
    then have "\<forall>x\<in>set xs. cid x \<noteq> cid c" by (metis image_eqI)
    then have "filter (\<lambda>x. cid x \<noteq> cid c) xs = xs" by (simp add: filter_id_conv)
    with True show ?thesis by simp
  next
    case False
    with Cons.prems have "c \<in> set xs" and "cid a \<noteq> cid c" by auto
    with Cons False show ?thesis by simp
  qed
qed

lemma mset_play_card:
  assumes "distinct (map cid xs)" and "c \<in> set xs"
  shows "mset (filter (\<lambda>x. cid x \<noteq> cid c) xs) + {#c#} = mset xs"
  using assms by (simp add: filter_cid_remove1)

lemma deal_split:
  assumes "20 < length fullDeck"
  shows "take 10 fullDeck @ take 10 (drop 10 fullDeck) @ [fullDeck ! 20] @ drop 21 fullDeck
           = fullDeck"
proof -
  have "drop 20 fullDeck = fullDeck ! 20 # drop 21 fullDeck"
    using assms Cons_nth_drop_Suc [of 20 fullDeck] by simp
  moreover have "drop 20 fullDeck = drop 10 (drop 10 fullDeck)"
    by simp
  ultimately have "take 10 (drop 10 fullDeck) @ [fullDeck ! 20] @ drop 21 fullDeck
               = drop 10 fullDeck"
    by (metis append_Cons append_Nil append_take_drop_id)
  then show ?thesis by (metis append_take_drop_id)
qed

lemma find_first_index:
  "\<exists>x\<in>set xs. P x \<Longrightarrow>
     \<exists>i<length xs. find P xs = Some (xs ! i) \<and> P (xs ! i) \<and> (\<forall>j<i. \<not> P (xs ! j))"
proof (induction xs)
  case Nil
  then show ?case by simp
next
  case (Cons a xs)
  show ?case
  proof (cases "P a")
    case True
    then have "find P (a # xs) = Some ((a # xs) ! 0) \<and> P ((a # xs) ! 0)
                 \<and> (\<forall>j<0. \<not> P ((a # xs) ! j))" by simp
    then show ?thesis by blast
  next
    case False
    with Cons.prems have "\<exists>x\<in>set xs. P x" by auto
    from Cons.IH [OF this] obtain i where i: "i < length xs" "find P xs = Some (xs ! i)"
      "P (xs ! i)" "\<forall>j<i. \<not> P (xs ! j)" by blast
    have "\<forall>j<Suc i. \<not> P ((a # xs) ! j)"
    proof (intro allI impI)
      fix j assume "j < Suc i"
      then show "\<not> P ((a # xs) ! j)" using False i(4) by (cases j) auto
    qed
    with i False have "Suc i < length (a # xs) \<and> find P (a # xs) = Some ((a # xs) ! Suc i)
        \<and> P ((a # xs) ! Suc i) \<and> (\<forall>j<Suc i. \<not> P ((a # xs) ! j))" by simp
    then show ?thesis by blast
  qed
qed

lemma find_filter: "find P (filter Q xs) = find (\<lambda>x. Q x \<and> P x) xs"
  by (induction xs) auto

lemma hd_filter_find: "filter Q xs \<noteq> [] \<Longrightarrow> Some (hd (filter Q xs)) = find Q xs"
  by (induction xs) auto

subsection \<open>The opponent's choice of card\<close>

lemma cardToPlay_mem: "xs \<noteq> [] \<Longrightarrow> cardToPlay xs \<in> set xs"
  by (auto simp: cardToPlay_def find_Some_iff split: option.split)

lemma cardToPlay_first:
  assumes "filter Q xs \<noteq> []"
  shows "\<exists>i<length xs. cardToPlay (filter Q xs) = xs ! i \<and> Q (xs ! i)
           \<and> (if \<exists>x\<in>set xs. Q x \<and> rank x \<noteq> ''A''
               then rank (xs ! i) \<noteq> ''A''
                    \<and> (\<forall>j<i. \<not> (Q (xs ! j) \<and> rank (xs ! j) \<noteq> ''A''))
               else \<forall>j<i. \<not> Q (xs ! j))"
proof (cases "\<exists>x\<in>set xs. Q x \<and> rank x \<noteq> ''A''")
  case True
  from find_first_index [of xs "\<lambda>x. Q x \<and> rank x \<noteq> ''A''", OF True]
  obtain i where "i < length xs" "find (\<lambda>x. Q x \<and> rank x \<noteq> ''A'') xs = Some (xs ! i)"
    "Q (xs ! i) \<and> rank (xs ! i) \<noteq> ''A''" "\<forall>j<i. \<not> (Q (xs ! j) \<and> rank (xs ! j) \<noteq> ''A'')"
    by blast
  with True show ?thesis
    by (auto simp: cardToPlay_def find_filter)
next
  case False
  then have none: "find (\<lambda>x. Q x \<and> rank x \<noteq> ''A'') xs = None"
    by (auto simp: find_None_iff)
  from assms have "\<exists>x\<in>set xs. Q x" by (auto simp: filter_empty_conv)
  from find_first_index [of xs Q, OF this]
  obtain i where "i < length xs" "find Q xs = Some (xs ! i)" "Q (xs ! i)" "\<forall>j<i. \<not> Q (xs ! j)"
    by blast
  moreover have "cardToPlay (filter Q xs) = hd (filter Q xs)"
    by (simp add: cardToPlay_def find_filter none)
  ultimately show ?thesis
    using False hd_filter_find [OF assms] by auto
qed

subsection \<open>The suit tally\<close>

lemma map_of_bumpCount:
  "map_of (bumpCount sc s) k = (if k = s then Some (countOf sc s + 1) else map_of sc k)"
  by (induction sc s rule: bumpCount.induct) (auto simp: countOf_def)

lemma countOf_bumpCount:
  "countOf (bumpCount sc s) k = countOf sc k + (if k = s then 1 else 0)"
  by (simp add: countOf_def map_of_bumpCount)

lemma keys_bumpCount: "fst ` set (bumpCount sc s) = insert s (fst ` set sc)"
  by (induction sc s rule: bumpCount.induct) auto

lemma countOf_foldl:
  "countOf (foldl bumpCount sc ss) k = countOf sc k + length (filter (\<lambda>s. s = k) ss)"
  by (induction ss arbitrary: sc) (auto simp: countOf_bumpCount)

lemma keys_foldl: "fst ` set (foldl bumpCount sc ss) = fst ` set sc \<union> set ss"
  by (induction ss arbitrary: sc) (auto simp: keys_bumpCount)

lemma countOf_suitCounts:
  "countOf (suitCounts hand) k = length (filter (\<lambda>c. suit c = k) hand)"
proof -
  have "countOf (suitCounts hand) k
          = countOf [] k + length (filter (\<lambda>s. s = k) (map suit hand))"
    by (simp only: suitCounts_def countOf_foldl)
  also have "\<dots> = length (filter (\<lambda>c. suit c = k) hand)"
    by (simp add: countOf_def filter_map comp_def)
  finally show ?thesis .
qed

lemma keys_suitCounts: "set (map fst (suitCounts hand)) = suit ` set hand"
  by (simp add: suitCounts_def keys_foldl)

lemma sort_key_head_least:
  assumes "sort_key f xs = k # ks"
  shows "k \<in> set xs \<and> (\<forall>x\<in>set xs. f k \<le> f x)"
proof -
  have "set (k # ks) = set xs" using assms set_sort [of f xs] by simp
  moreover have "sorted (map f (k # ks))" using assms sorted_sort_key [of f xs] by simp
  ultimately show ?thesis by auto
qed

lemma bestSuit_Nil: "bestSuit [] = Hearts"
  by (simp add: bestSuit_def suitCounts_def)

lemma bestSuit_most:
  assumes "hand \<noteq> []"
  shows "bestSuit hand \<in> suit ` set hand
         \<and> (\<forall>t. length (filter (\<lambda>c. suit c = t) hand)
                  \<le> length (filter (\<lambda>c. suit c = bestSuit hand) hand))"
proof -
  let ?sc = "suitCounts hand"
  let ?f = "\<lambda>k. - int (countOf ?sc k)"
  have keys: "set (map fst ?sc) = suit ` set hand" by (rule keys_suitCounts)
  with assms have "map fst ?sc \<noteq> []" by auto
  then have "sort_key ?f (map fst ?sc) \<noteq> []"
    by (metis length_sort length_0_conv)
  then obtain k ks where srt: "sort_key ?f (map fst ?sc) = k # ks"
    by (cases "sort_key ?f (map fst ?sc)") auto
  then have best: "bestSuit hand = k" by (simp add: bestSuit_def)
  from sort_key_head_least [OF srt]
  have k: "k \<in> suit ` set hand" and least: "\<forall>x\<in>suit ` set hand. ?f k \<le> ?f x"
    unfolding keys by blast+
  have "length (filter (\<lambda>c. suit c = t) hand) \<le> length (filter (\<lambda>c. suit c = k) hand)" for t
  proof (cases "t \<in> suit ` set hand")
    case True
    with least have "countOf ?sc t \<le> countOf ?sc k" by auto
    then show ?thesis by (simp add: countOf_suitCounts)
  next
    case False
    then have "filter (\<lambda>c. suit c = t) hand = []" by (auto simp: filter_empty_conv)
    then show ?thesis by simp
  qed
  with k best show ?thesis by simp
qed

subsection \<open>What each operation writes\<close>

lemma handlePlayerPlay_fields:
  "deck (handlePlayerPlay c g) = deck g"
  "aiHand (handlePlayerPlay c g) = aiHand g"
  "playerHand (handlePlayerPlay c g) =
     (if turn g = Player \<and> gameStatus g = Playing \<and> canPlay g c \<and> rank c \<noteq> ''A''
      then filter (\<lambda>x. cid x \<noteq> cid c) (playerHand g) else playerHand g)"
  "discardPile (handlePlayerPlay c g) =
     (if turn g = Player \<and> gameStatus g = Playing \<and> canPlay g c \<and> rank c \<noteq> ''A''
      then discardPile g @ [c] else discardPile g)"
  "pendingAceCard (handlePlayerPlay c g) =
     (if turn g = Player \<and> gameStatus g = Playing \<and> canPlay g c \<and> rank c = ''A''
      then Some c else pendingAceCard g)"
  by (simp_all add: handlePlayerPlay_def checkGameOver_def Let_def)

lemma handleSuitPick_fields:
  "deck (handleSuitPick s g) = deck g"
  "aiHand (handleSuitPick s g) = aiHand g"
  "playerHand (handleSuitPick s g) =
     (case pendingAceCard g of
        None \<Rightarrow> playerHand g
      | Some p \<Rightarrow> filter (\<lambda>x. cid x \<noteq> cid p) (playerHand g))"
  "discardPile (handleSuitPick s g) =
     (case pendingAceCard g of
        None \<Rightarrow> discardPile g
      | Some p \<Rightarrow> discardPile g @ [p])"
  "pendingAceCard (handleSuitPick s g) = None"
  by (simp_all add: handleSuitPick_def checkGameOver_def Let_def split: option.split)

lemma handleDraw_zones: "mset (zones (handleDraw g)) = mset (zones g)"
  by (simp add: handleDraw_def zones_def Let_def split: list.split)

lemma handleDraw_pending:
  "pendingAceCard (handleDraw g) = pendingAceCard g"
  "set (playerHand g) \<subseteq> set (playerHand (handleDraw g))"
  by (auto simp: handleDraw_def Let_def split: list.split)

lemma aiLogic_fields:
  "pendingAceCard (aiLogic g) = pendingAceCard g"
  "playerHand (aiLogic g) = playerHand g"
  "filter (canPlay g) (aiHand g) \<noteq> [] \<Longrightarrow> deck (aiLogic g) = deck g"
  "turn g = Ai \<Longrightarrow> gameStatus g = Playing \<Longrightarrow> filter (canPlay g) (aiHand g) \<noteq> [] \<Longrightarrow>
     aiHand (aiLogic g)
       = filter (\<lambda>x. cid x \<noteq> cid (cardToPlay (filter (canPlay g) (aiHand g)))) (aiHand g)"
  "turn g = Ai \<Longrightarrow> gameStatus g = Playing \<Longrightarrow> filter (canPlay g) (aiHand g) \<noteq> [] \<Longrightarrow>
     discardPile (aiLogic g)
       = discardPile g @ [cardToPlay (filter (canPlay g) (aiHand g))]"
  by (simp_all add: aiLogic_def checkGameOver_def Let_def split: list.split)

lemma aiLogic_suit:
  assumes "turn g = Ai" and "gameStatus g = Playing" and "filter (canPlay g) (aiHand g) \<noteq> []"
  shows "currentSuit (aiLogic g) =
           (if rank (cardToPlay (filter (canPlay g) (aiHand g))) = ''A''
            then Some (bestSuit (aiHand (aiLogic g)))
            else Some (suit (cardToPlay (filter (canPlay g) (aiHand g)))))"
  using assms by (simp add: aiLogic_def checkGameOver_def Let_def)

lemma aiLogic_no_play:
  "\<not> (turn g = Ai \<and> gameStatus g = Playing) \<or> filter (canPlay g) (aiHand g) = [] \<Longrightarrow>
     mset (zones (aiLogic g)) = mset (zones g)"
  by (auto simp: aiLogic_def zones_def Let_def split: list.split)

subsection \<open>The zones under each operation\<close>

lemma cards_invariant_zones:
  "cards_invariant g \<longleftrightarrow> length (zones g) = 52 \<and> distinct (map cid (zones g))"
  by (auto simp: cards_invariant_def zones_def)

lemma cards_invariant_mset:
  assumes "cards_invariant g" and "mset (zones g') = mset (zones g)"
  shows "cards_invariant g'"
proof -
  have "length (zones g') = length (zones g)"
    using assms(2) by (rule mset_eq_length)
  moreover have "mset (map cid (zones g')) = mset (map cid (zones g))"
    using assms(2) by (metis mset_map)
  then have "distinct (map cid (zones g')) \<longleftrightarrow> distinct (map cid (zones g))"
    by (rule mset_eq_imp_distinct_iff)
  ultimately show ?thesis using assms(1) by (simp add: cards_invariant_zones)
qed

lemma invariant_hands:
  assumes "cards_invariant g"
  shows "distinct (map cid (playerHand g))" and "distinct (map cid (aiHand g))"
  using assms by (simp_all add: cards_invariant_def zones_def)

lemma handlePlayerPlay_ok:
  assumes "game_ok g" and "c \<in> set (playerHand g)"
  shows "game_ok (handlePlayerPlay c g)"
proof -
  from assms(1) have inv: "cards_invariant g" and pend: "pending_ok g"
    by (simp_all add: game_ok_def)
  have dist: "distinct (map cid (playerHand g))" using inv by (rule invariant_hands)
  have "mset (zones (handlePlayerPlay c g)) = mset (zones g)"
    using mset_play_card [OF dist assms(2)]
    by (simp add: zones_def handlePlayerPlay_fields)
  with inv have "cards_invariant (handlePlayerPlay c g)" by (rule cards_invariant_mset)
  moreover have "pending_ok (handlePlayerPlay c g)"
  proof (cases "turn g = Player \<and> gameStatus g = Playing \<and> canPlay g c \<and> rank c \<noteq> ''A''")
    case True
    show ?thesis
    proof (cases "pendingAceCard g")
      case None
      with True show ?thesis by (simp add: pending_ok_def handlePlayerPlay_fields)
    next
      case (Some p)
      with pend have p: "p \<in> set (playerHand g)" "rank p = ''A''"
        by (simp_all add: pending_ok_def)
      with True have "p \<noteq> c" by auto
      with dist p(1) assms(2) have "cid p \<noteq> cid c"
        by (metis distinct_map inj_on_def)
      with True Some p show ?thesis by (simp add: pending_ok_def handlePlayerPlay_fields)
    qed
  next
    case False
    with pend assms(2) show ?thesis
      by (auto simp: pending_ok_def handlePlayerPlay_fields split: option.splits)
  qed
  ultimately show ?thesis by (simp add: game_ok_def)
qed

lemma handleSuitPick_ok:
  assumes "game_ok g"
  shows "game_ok (handleSuitPick s g)"
proof -
  from assms(1) have inv: "cards_invariant g" and pend: "pending_ok g"
    by (simp_all add: game_ok_def)
  have dist: "distinct (map cid (playerHand g))" using inv by (rule invariant_hands)
  have "mset (zones (handleSuitPick s g)) = mset (zones g)"
  proof (cases "pendingAceCard g")
    case None
    then show ?thesis by (simp add: zones_def handleSuitPick_fields)
  next
    case (Some p)
    with pend have "p \<in> set (playerHand g)" by (simp add: pending_ok_def)
    from mset_play_card [OF dist this] Some show ?thesis
      by (simp add: zones_def handleSuitPick_fields)
  qed
  with inv have "cards_invariant (handleSuitPick s g)" by (rule cards_invariant_mset)
  then show ?thesis by (simp add: game_ok_def pending_ok_def handleSuitPick_fields)
qed

lemma handleDraw_ok:
  assumes "game_ok g"
  shows "game_ok (handleDraw g)"
proof -
  from assms(1) have inv: "cards_invariant g" and pend: "pending_ok g"
    by (simp_all add: game_ok_def)
  have "cards_invariant (handleDraw g)"
    using inv handleDraw_zones by (rule cards_invariant_mset)
  moreover have "pending_ok (handleDraw g)"
    using pend handleDraw_pending(2) [of g]
    by (auto simp: pending_ok_def handleDraw_pending(1) split: option.splits)
  ultimately show ?thesis by (simp add: game_ok_def)
qed

lemma aiLogic_ok:
  assumes "game_ok g"
  shows "game_ok (aiLogic g)"
proof -
  from assms(1) have inv: "cards_invariant g" and pend: "pending_ok g"
    by (simp_all add: game_ok_def)
  have dist: "distinct (map cid (aiHand g))" using inv by (rule invariant_hands)
  have "mset (zones (aiLogic g)) = mset (zones g)"
  proof (cases "turn g = Ai \<and> gameStatus g = Playing \<and> filter (canPlay g) (aiHand g) \<noteq> []")
    case True
    then have "cardToPlay (filter (canPlay g) (aiHand g)) \<in> set (aiHand g)"
      using cardToPlay_mem [of "filter (canPlay g) (aiHand g)"] by auto
    from mset_play_card [OF dist this] True show ?thesis
      by (simp add: zones_def aiLogic_fields)
  next
    case False
    then show ?thesis by (intro aiLogic_no_play) blast
  qed
  with inv have "cards_invariant (aiLogic g)" by (rule cards_invariant_mset)
  moreover have "pending_ok (aiLogic g)"
    using pend by (simp add: pending_ok_def aiLogic_fields(1,2) split: option.splits)
  ultimately show ?thesis by (simp add: game_ok_def)
qed

lemma step_ok: "game_ok g \<Longrightarrow> game_ok (step i g)"
  by (cases i) (simp_all add: handlePlayerPlay_ok handleSuitPick_ok handleDraw_ok aiLogic_ok)

lemma run_ok: "game_ok g \<Longrightarrow> game_ok (run is g)"
  by (induction "is" arbitrary: g) (simp_all add: step_ok)

lemma initGame_ok:
  assumes "length fullDeck = 52" and "distinct (map cid fullDeck)"
    and "initGame fullDeck g0 = Inr g"
  shows "game_ok g"
proof -
  from assms(1,3) have g: "deck g = drop 21 fullDeck" "playerHand g = take 10 fullDeck"
    "aiHand g = take 10 (drop 10 fullDeck)" "discardPile g = [fullDeck ! 20]"
    "pendingAceCard g = None"
    by (auto simp: initGame_def slice_def slice_from_def Let_def)
  have "mset (zones g) = mset (take 10 fullDeck @ take 10 (drop 10 fullDeck) @ [fullDeck ! 20]
                                 @ drop 21 fullDeck)"
    by (simp add: zones_def g)
  also have "\<dots> = mset fullDeck" using assms(1) by (simp only: deal_split)
  finally have m: "mset (zones g) = mset fullDeck" .
  have "length (zones g) = 52" using m assms(1) by (metis mset_eq_length)
  moreover have "mset (map cid (zones g)) = mset (map cid fullDeck)" using m by (metis mset_map)
  then have "distinct (map cid (zones g))"
    using assms(2) by (metis mset_eq_imp_distinct_iff)
  ultimately show ?thesis by (simp add: game_ok_def cards_invariant_zones pending_ok_def g)
qed

lemma sample_deck_facts:
  "length sample_deck = 52" "distinct (map cid sample_deck)"
  by code_simp+

section \<open>The claims\<close>

text \<open>
  Claim C1. In every state reached after dealing, the draw pile, the human hand, the
  opponent hand and the discard pile hold 52 cards together, and no card identifier
  occurs twice in them; playing a card, choosing a suit, drawing and the opponent's step
  all keep it so. The deck dealt is any list of 52 cards with distinct identifiers, the
  state before the deal is arbitrary (a start or a restart), \<open>is\<close> is any sequence of
  the four operations and \<open>i\<close> any one of them applied to the state reached.
\<close>

theorem cards_invariant_run:
  assumes "length fullDeck = 52" and "distinct (map cid fullDeck)"
    and "initGame fullDeck g0 = Inr g"
  shows "cards_invariant (run is g) \<and> (\<forall>i. cards_invariant (step i (run is g)))"
proof -
  have "game_ok (run is g)" using initGame_ok [OF assms] by (rule run_ok)
  then show ?thesis using step_ok [of "run is g"] by (simp add: game_ok_def)
qed

theorem cards_invariant_run_witness:
  "length sample_deck = 52 \<and> distinct (map cid sample_deck)
   \<and> (\<exists>g. initGame sample_deck app_init = Inr g
          \<and> cards_invariant (run sample_intents g)
          \<and> length (discardPile (run sample_intents g)) = 7)"
proof -
  obtain g where g: "initGame sample_deck app_init = Inr g"
    using sample_deck_facts(1) by (auto simp: initGame_def Let_def)
  have "cards_invariant (run sample_intents g)"
    using cards_invariant_run [OF sample_deck_facts g] by simp
  moreover have "length (discardPile (run sample_intents (projr (initGame sample_deck app_init)))) = 7"
    by code_simp
  ultimately show ?thesis using sample_deck_facts g by auto
qed

text \<open>
  Claim C2. After every play that takes a card from a hand (a card that is no Ace played
  by the human, the human's suit choice for a pending Ace, a card played by the
  opponent) the terminal check decides the status from the hands as they are after the
  play, the human's hand first: lost when the human's hand is empty, otherwise won when
  the opponent's is, otherwise still being played. The turn passes to the other side
  only in the last case; when the game ends the turn stays where it was.
\<close>

theorem terminal_check_order:
  "(turn g = Player \<and> gameStatus g = Playing \<and> canPlay g c \<and> rank c \<noteq> ''A'' \<longrightarrow>
      (let g' = handlePlayerPlay c g in
         gameStatus g' =
           (if playerHand g' = [] then Lost else if aiHand g' = [] then Won else Playing)
         \<and> turn g' = (if gameStatus g' = Playing then Ai else turn g)))
   \<and> (pendingAceCard g = Some p \<and> gameStatus g = Playing \<longrightarrow>
      (let g' = handleSuitPick s g in
         gameStatus g' =
           (if playerHand g' = [] then Lost else if aiHand g' = [] then Won else Playing)
         \<and> turn g' = (if gameStatus g' = Playing then Ai else turn g)))
   \<and> (turn g = Ai \<and> gameStatus g = Playing \<and> filter (canPlay g) (aiHand g) \<noteq> [] \<longrightarrow>
      (let g' = aiLogic g in
         gameStatus g' =
           (if playerHand g' = [] then Lost else if aiHand g' = [] then Won else Playing)
         \<and> turn g' = (if gameStatus g' = Playing then Player else turn g)))"
  by (simp add: handlePlayerPlay_def handleSuitPick_def aiLogic_def checkGameOver_def Let_def)

theorem terminal_check_order_witness:
  "turn last_card_scene = Player \<and> gameStatus last_card_scene = Playing
   \<and> canPlay last_card_scene (mkCard 5 Diamonds ''K'')
   \<and> rank (mkCard 5 Diamonds ''K'') \<noteq> ''A''
   \<and> playerHand (handlePlayerPlay (mkCard 5 Diamonds ''K'') last_card_scene) = []
   \<and> gameStatus (handlePlayerPlay (mkCard 5 Diamonds ''K'') last_card_scene) = Lost
   \<and> turn (handlePlayerPlay (mkCard 5 Diamonds ''K'') last_card_scene) = Player
   \<and> pendingAceCard (handlePlayerPlay (mkCard 1 Spades ''A'') human_scene)
       = Some (mkCard 1 Spades ''A'')
   \<and> gameStatus (handlePlayerPlay (mkCard 1 Spades ''A'') human_scene) = Playing
   \<and> gameStatus (handleSuitPick Hearts (handlePlayerPlay (mkCard 1 Spades ''A'') human_scene))
       = Playing
   \<and> turn (handleSuitPick Hearts (handlePlayerPlay (mkCard 1 Spades ''A'') human_scene)) = Ai
   \<and> turn ai_last_ace_scene = Ai \<and> gameStatus ai_last_ace_scene = Playing
   \<and> filter (canPlay ai_last_ace_scene) (aiHand ai_last_ace_scene) \<noteq> []
   \<and> aiHand (aiLogic ai_last_ace_scene) = []
   \<and> gameStatus (aiLogic ai_last_ace_scene) = Won
   \<and> turn (aiLogic ai_last_ace_scene) = Ai"
proof -
  have h1: "turn last_card_scene = Player \<and> gameStatus last_card_scene = Playing
      \<and> canPlay last_card_scene (mkCard 5 Diamonds ''K'')
      \<and> rank (mkCard 5 Diamonds ''K'') \<noteq> ''A''"
    by code_simp
  have e1: "playerHand (handlePlayerPlay (mkCard 5 Diamonds ''K'') last_card_scene) = []"
    by code_simp
  have h2: "pendingAceCard (handlePlayerPlay (mkCard 1 Spades ''A'') human_scene)
        = Some (mkCard 1 Spades ''A'')
      \<and> gameStatus (handlePlayerPlay (mkCard 1 Spades ''A'') human_scene) = Playing"
    by code_simp
  have e2: "playerHand (handleSuitPick Hearts (handlePlayerPlay (mkCard 1 Spades ''A'') human_scene)) \<noteq> []
      \<and> aiHand (handleSuitPick Hearts (handlePlayerPlay (mkCard 1 Spades ''A'') human_scene)) \<noteq> []
      \<and> turn (handlePlayerPlay (mkCard 1 Spades ''A'') human_scene) = Player"
    by code_simp
  have h3: "turn ai_last_ace_scene = Ai \<and> gameStatus ai_last_ace_scene = Playing
      \<and> filter (canPlay ai_last_ace_scene) (aiHand ai_last_ace_scene) \<noteq> []"
    by code_simp
  have e3: "aiHand (aiLogic ai_last_ace_scene) = [] \<and> playerHand (aiLogic ai_last_ace_scene) \<noteq> []"
    by code_simp
  show ?thesis
    using terminal_check_order [of last_card_scene "mkCard 5 Diamonds ''K''"]
      terminal_check_order [of "handlePlayerPlay (mkCard 1 Spades ''A'') human_scene" _
         "mkCard 1 Spades ''A''" Hearts]
      terminal_check_order [of ai_last_ace_scene]
      h1 e1 h2 e2 h3 e3
    by (simp add: Let_def)
qed

lemma canPlay_unfold:
  "canPlay g c \<longleftrightarrow>
     discardPile g \<noteq> []
     \<and> (rank c = ''A'' \<or> Some (suit c) = currentSuit g
          \<or> rank c = rank (last (discardPile g)))"
  by (simp add: canPlay_def topDiscard_def)

lemma handleDraw_discard: "discardPile (handleDraw g) = discardPile g"
  by (simp add: handleDraw_def Let_def split: list.split)

lemma aiLogic_discard: "discardPile g \<noteq> [] \<Longrightarrow> discardPile (aiLogic g) \<noteq> []"
  by (simp add: aiLogic_def checkGameOver_def Let_def split: list.split)

lemma step_discard: "discardPile g \<noteq> [] \<Longrightarrow> discardPile (step i g) \<noteq> []"
proof (cases i)
  case (PlayCard c)
  assume "discardPile g \<noteq> []"
  with PlayCard show ?thesis by (simp add: handlePlayerPlay_fields(4))
next
  case (ChooseSuit s)
  assume "discardPile g \<noteq> []"
  with ChooseSuit show ?thesis
    by (simp add: handleSuitPick_fields(4) split: option.split)
next
  case Draw
  assume "discardPile g \<noteq> []"
  with Draw show ?thesis by (simp add: handleDraw_discard)
next
  case OpponentStep
  assume "discardPile g \<noteq> []"
  with OpponentStep show ?thesis by (simp add: aiLogic_discard)
qed

lemma run_discard: "discardPile g \<noteq> [] \<Longrightarrow> discardPile (run is g) \<noteq> []"
  by (induction "is" arbitrary: g) (simp_all add: step_discard)

lemma initGame_discard: "initGame fullDeck g0 = Inr g \<Longrightarrow> discardPile g = [fullDeck ! 20]"
  by (auto simp: initGame_def Let_def split: if_splits)

text \<open>
  Claim C3. The states in which \<open>canPlay\<close> is asked are the states of a dealt game:
  before the first deal no hand holds a card and every caller is guarded by the game
  being played. The deal puts one card on the discard pile and every operation only
  appends to it, so in every state reached from a deal, whatever the deck, the state
  before it and the operations since, there is a top discard, and a card is playable
  exactly when it is an Ace, or its suit is the suit to follow, or its rank is the rank
  of the top discard; an Ace is playable whatever the suit to follow and the top discard
  are.
\<close>

theorem canPlay_after_deal:
  assumes "initGame fullDeck g0 = Inr g"
  shows "topDiscard (run is g) = Some (last (discardPile (run is g)))
         \<and> (canPlay (run is g) c \<longleftrightarrow>
               (rank c = ''A'' \<or> Some (suit c) = currentSuit (run is g)
                \<or> rank c = rank (last (discardPile (run is g)))))
         \<and> (rank c = ''A'' \<longrightarrow> canPlay (run is g) c)"
proof -
  have "discardPile g \<noteq> []" using initGame_discard [OF assms] by simp
  then have "discardPile (run is g) \<noteq> []" by (rule run_discard)
  then show ?thesis by (simp add: canPlay_unfold topDiscard_def)
qed

theorem canPlay_after_deal_witness:
  "\<exists>g. initGame sample_deck app_init = Inr g
       \<and> topDiscard (run sample_intents g) = Some (mkCard 14 Diamonds ''K'')
       \<and> currentSuit (run sample_intents g) = Some Diamonds
       \<and> canPlay (run sample_intents g) (mkCard 26 Clubs ''A'')
       \<and> canPlay (run sample_intents g) (mkCard 22 Diamonds ''5'')
       \<and> canPlay (run sample_intents g) (mkCard 1 Hearts ''K'')
       \<and> \<not> canPlay (run sample_intents g) (mkCard 51 Spades ''2'')"
proof -
  obtain g where g: "initGame sample_deck app_init = Inr g"
    using sample_deck_facts(1) by (auto simp: initGame_def Let_def)
  have e: "last (discardPile (run sample_intents (projr (initGame sample_deck app_init))))
             = mkCard 14 Diamonds ''K''"
    "currentSuit (run sample_intents (projr (initGame sample_deck app_init))) = Some Diamonds"
    by code_simp+
  have r: "rank (mkCard 26 Clubs ''A'') = ''A''"
    "suit (mkCard 22 Diamonds ''5'') = Diamonds"
    "rank (mkCard 1 Hearts ''K'') = rank (mkCard 14 Diamonds ''K'')"
    "rank (mkCard 51 Spades ''2'') \<noteq> ''A''"
    "suit (mkCard 51 Spades ''2'') \<noteq> Diamonds"
    "rank (mkCard 51 Spades ''2'') \<noteq> rank (mkCard 14 Diamonds ''K'')"
    by code_simp+
  have "topDiscard (run sample_intents g) = Some (mkCard 14 Diamonds ''K'')"
    and "canPlay (run sample_intents g) (mkCard 26 Clubs ''A'')"
    and "canPlay (run sample_intents g) (mkCard 22 Diamonds ''5'')"
    and "canPlay (run sample_intents g) (mkCard 1 Hearts ''K'')"
    and "\<not> canPlay (run sample_intents g) (mkCard 51 Spades ''2'')"
    using canPlay_after_deal [OF g, of sample_intents "mkCard 26 Clubs ''A''"]
      canPlay_after_deal [OF g, of sample_intents "mkCard 22 Diamonds ''5''"]
      canPlay_after_deal [OF g, of sample_intents "mkCard 1 Hearts ''K''"]
      canPlay_after_deal [OF g, of sample_intents "mkCard 51 Spades ''2''"]
      e r g
    by simp_all
  with e g show ?thesis by auto
qed

text \<open>
  Claim C4. A legal play of an Ace by the human only records the card as pending and
  opens the suit picker: hand, discard pile, suit to follow and turn stay as they were.
  The suit choice that follows takes the card out of the hand (every card with its
  identifier; exactly that card when it is in the hand and the hand's identifiers are
  distinct), puts it on the discard pile, makes the chosen suit the suit to follow,
  clears the pending card and closes the picker, runs the terminal check, and gives the
  turn to the opponent when the game goes on.
\<close>

theorem wild_play_deferred:
  assumes "turn g = Player" and "gameStatus g = Playing"
    and "canPlay g c" and "rank c = ''A''"
  shows "(let g1 = handlePlayerPlay c g; g2 = handleSuitPick s g1 in
           playerHand g1 = playerHand g
           \<and> discardPile g1 = discardPile g
           \<and> currentSuit g1 = currentSuit g
           \<and> turn g1 = turn g
           \<and> pendingAceCard g1 = Some c
           \<and> showSuitPicker g1
           \<and> playerHand g2 = filter (\<lambda>x. cid x \<noteq> cid c) (playerHand g)
           \<and> (c \<in> set (playerHand g) \<and> distinct (map cid (playerHand g))
                \<longrightarrow> playerHand g2 = remove1 c (playerHand g))
           \<and> discardPile g2 = discardPile g @ [c]
           \<and> currentSuit g2 = Some s
           \<and> pendingAceCard g2 = None
           \<and> \<not> showSuitPicker g2
           \<and> gameStatus g2 =
               (if playerHand g2 = [] then Lost
                else if aiHand g2 = [] then Won else Playing)
           \<and> turn g2 = (if gameStatus g2 = Playing then Ai else Player))"
  using assms
  by (simp add: handlePlayerPlay_def handleSuitPick_def checkGameOver_def Let_def
      filter_cid_remove1)

theorem wild_play_deferred_witness:
  "turn human_scene = Player \<and> gameStatus human_scene = Playing
   \<and> canPlay human_scene (mkCard 1 Spades ''A'') \<and> rank (mkCard 1 Spades ''A'') = ''A''
   \<and> mkCard 1 Spades ''A'' \<in> set (playerHand human_scene)
   \<and> distinct (map cid (playerHand human_scene))
   \<and> playerHand (handlePlayerPlay (mkCard 1 Spades ''A'') human_scene)
       = [mkCard 1 Spades ''A'', mkCard 2 Hearts ''7'']
   \<and> discardPile (handlePlayerPlay (mkCard 1 Spades ''A'') human_scene)
       = [mkCard 0 Clubs ''7'']
   \<and> currentSuit (handlePlayerPlay (mkCard 1 Spades ''A'') human_scene) = Some Clubs
   \<and> turn (handlePlayerPlay (mkCard 1 Spades ''A'') human_scene) = Player
   \<and> pendingAceCard (handlePlayerPlay (mkCard 1 Spades ''A'') human_scene)
       = Some (mkCard 1 Spades ''A'')
   \<and> playerHand (handleSuitPick Hearts (handlePlayerPlay (mkCard 1 Spades ''A'') human_scene))
       = [mkCard 2 Hearts ''7'']
   \<and> discardPile (handleSuitPick Hearts (handlePlayerPlay (mkCard 1 Spades ''A'') human_scene))
       = [mkCard 0 Clubs ''7'', mkCard 1 Spades ''A'']
   \<and> currentSuit (handleSuitPick Hearts (handlePlayerPlay (mkCard 1 Spades ''A'') human_scene))
       = Some Hearts
   \<and> pendingAceCard (handleSuitPick Hearts (handlePlayerPlay (mkCard 1 Spades ''A'') human_scene))
       = None
   \<and> gameStatus (handleSuitPick Hearts (handlePlayerPlay (mkCard 1 Spades ''A'') human_scene))
       = Playing
   \<and> turn (handleSuitPick Hearts (handlePlayerPlay (mkCard 1 Spades ''A'') human_scene)) = Ai"
proof -
  have h: "turn human_scene = Player" "gameStatus human_scene = Playing"
    "canPlay human_scene (mkCard 1 Spades ''A'')" "rank (mkCard 1 Spades ''A'') = ''A''"
    by code_simp+
  have e: "mkCard 1 Spades ''A'' \<in> set (playerHand human_scene)"
    "distinct (map cid (playerHand human_scene))"
    "playerHand human_scene = [mkCard 1 Spades ''A'', mkCard 2 Hearts ''7'']"
    "discardPile human_scene = [mkCard 0 Clubs ''7'']"
    "currentSuit human_scene = Some Clubs"
    "aiHand (handleSuitPick Hearts (handlePlayerPlay (mkCard 1 Spades ''A'') human_scene)) \<noteq> []"
    "remove1 (mkCard 1 Spades ''A'') [mkCard 1 Spades ''A'', mkCard 2 Hearts ''7'']
       = [mkCard 2 Hearts ''7'']"
    by code_simp+
  show ?thesis
    using wild_play_deferred [OF h, of Hearts] h e by (simp add: Let_def)
qed

text \<open>
  Claim C5. On the human's turn in a game being played, drawing from an empty draw pile
  passes the turn to the opponent and leaves both hands as they are; otherwise the first
  card of the draw pile goes to the end of the human's hand, and the turn passes to the
  opponent exactly when that card is not playable on the current suit and top discard:
  when it is playable, the turn stays with the human.
\<close>

theorem handleDraw_turn:
  assumes "turn g = Player" and "gameStatus g = Playing"
  shows "(deck g = [] \<longrightarrow>
            turn (handleDraw g) = Ai
            \<and> playerHand (handleDraw g) = playerHand g
            \<and> aiHand (handleDraw g) = aiHand g)
         \<and> (\<forall>c cs. deck g = c # cs \<longrightarrow>
               deck (handleDraw g) = cs
               \<and> playerHand (handleDraw g) = playerHand g @ [c]
               \<and> aiHand (handleDraw g) = aiHand g
               \<and> (turn (handleDraw g) = Ai \<longleftrightarrow> \<not> canPlay g c)
               \<and> (turn (handleDraw g) = Player \<longleftrightarrow> canPlay g c))"
  using assms by (simp add: handleDraw_def Let_def)

theorem handleDraw_turn_witness:
  "turn empty_deck_scene = Player \<and> gameStatus empty_deck_scene = Playing
   \<and> deck empty_deck_scene = []
   \<and> turn (handleDraw empty_deck_scene) = Ai
   \<and> playerHand (handleDraw empty_deck_scene) = playerHand empty_deck_scene
   \<and> aiHand (handleDraw empty_deck_scene) = aiHand empty_deck_scene
   \<and> turn human_scene = Player \<and> gameStatus human_scene = Playing
   \<and> deck human_scene = [mkCard 20 Diamonds ''5'', mkCard 21 Clubs ''2'']
   \<and> \<not> canPlay human_scene (mkCard 20 Diamonds ''5'')
   \<and> deck (handleDraw human_scene) = [mkCard 21 Clubs ''2'']
   \<and> playerHand (handleDraw human_scene) = playerHand human_scene @ [mkCard 20 Diamonds ''5'']
   \<and> turn (handleDraw human_scene) = Ai"
proof -
  have h1: "turn empty_deck_scene = Player" "gameStatus empty_deck_scene = Playing"
    and e1: "deck empty_deck_scene = []"
    by code_simp+
  have h2: "turn human_scene = Player" "gameStatus human_scene = Playing"
    and e2: "deck human_scene = [mkCard 20 Diamonds ''5'', mkCard 21 Clubs ''2'']"
      "\<not> canPlay human_scene (mkCard 20 Diamonds ''5'')"
    by code_simp+
  show ?thesis
    using handleDraw_turn [OF h1] handleDraw_turn [OF h2] h1 e1 h2 e2 by simp
qed

text \<open>
  Claim C6. An intent whose precondition fails leaves the whole state as it was: a play
  of a card that \<open>canPlay\<close> rejects, a play or a draw when it is not the human's turn or
  the game is not being played, and a suit choice with no Ace pending.
\<close>

theorem illegal_intents_noop:
  "(turn g \<noteq> Player \<or> gameStatus g \<noteq> Playing \<or> \<not> canPlay g c
      \<longrightarrow> handlePlayerPlay c g = g)
   \<and> (turn g \<noteq> Player \<or> gameStatus g \<noteq> Playing \<longrightarrow> handleDraw g = g)
   \<and> (pendingAceCard g = None \<longrightarrow> handleSuitPick s g = g)"
  by (simp add: handlePlayerPlay_def handleDraw_def handleSuitPick_def)

theorem illegal_intents_noop_witness:
  "turn human_scene = Player \<and> gameStatus human_scene = Playing
   \<and> \<not> canPlay human_scene (mkCard 11 Hearts ''3'')
   \<and> handlePlayerPlay (mkCard 11 Hearts ''3'') human_scene = human_scene
   \<and> turn ai_scene = Ai
   \<and> canPlay ai_scene (mkCard 2 Hearts ''7'')
   \<and> handlePlayerPlay (mkCard 2 Hearts ''7'') ai_scene = ai_scene
   \<and> handleDraw ai_scene = ai_scene
   \<and> gameStatus (app_init :: nat game) = Start
   \<and> handleDraw (app_init :: nat game) = app_init
   \<and> pendingAceCard human_scene = None
   \<and> handleSuitPick Diamonds human_scene = human_scene"
proof -
  have e: "turn human_scene = Player" "gameStatus human_scene = Playing"
    "\<not> canPlay human_scene (mkCard 11 Hearts ''3'')"
    "turn ai_scene = Ai" "canPlay ai_scene (mkCard 2 Hearts ''7'')"
    "gameStatus (app_init :: nat game) = Start"
    "pendingAceCard human_scene = None"
    by code_simp+
  show ?thesis
    using illegal_intents_noop [of human_scene "mkCard 11 Hearts ''3''" Diamonds]
      illegal_intents_noop [of ai_scene "mkCard 2 Hearts ''7''"]
      illegal_intents_noop [of "app_init :: nat game"] e
    by simp
qed

text \<open>
  Claim C7. When the opponent has a playable card, the card it puts on the discard pile
  is a card of its hand at some position \<open>i\<close>: if the hand has a playable card that is
  no Ace, the card at \<open>i\<close> is playable and no Ace, and no earlier card of the hand is
  both; otherwise the card at \<open>i\<close> is playable and no earlier card of the hand is. The
  hand loses the cards with that identifier.
\<close>

theorem opponent_choice:
  assumes "turn g = Ai" and "gameStatus g = Playing"
    and "filter (canPlay g) (aiHand g) \<noteq> []"
  shows "\<exists>i<length (aiHand g).
           discardPile (aiLogic g) = discardPile g @ [aiHand g ! i]
           \<and> aiHand (aiLogic g) = filter (\<lambda>x. cid x \<noteq> cid (aiHand g ! i)) (aiHand g)
           \<and> canPlay g (aiHand g ! i)
           \<and> (if \<exists>x\<in>set (aiHand g). canPlay g x \<and> rank x \<noteq> ''A''
               then rank (aiHand g ! i) \<noteq> ''A''
                    \<and> (\<forall>j<i. \<not> (canPlay g (aiHand g ! j) \<and> rank (aiHand g ! j) \<noteq> ''A''))
               else \<forall>j<i. \<not> canPlay g (aiHand g ! j))"
proof -
  from cardToPlay_first [OF assms(3)] obtain i where
    i: "i < length (aiHand g)" "cardToPlay (filter (canPlay g) (aiHand g)) = aiHand g ! i"
      "canPlay g (aiHand g ! i)"
      "if \<exists>x\<in>set (aiHand g). canPlay g x \<and> rank x \<noteq> ''A''
       then rank (aiHand g ! i) \<noteq> ''A''
            \<and> (\<forall>j<i. \<not> (canPlay g (aiHand g ! j) \<and> rank (aiHand g ! j) \<noteq> ''A''))
       else \<forall>j<i. \<not> canPlay g (aiHand g ! j)"
    by blast
  have "discardPile (aiLogic g) = discardPile g @ [aiHand g ! i]"
    and "aiHand (aiLogic g) = filter (\<lambda>x. cid x \<noteq> cid (aiHand g ! i)) (aiHand g)"
    using aiLogic_fields(4,5) [OF assms] i(2) by simp_all
  with i show ?thesis by blast
qed

theorem opponent_choice_witness:
  "turn ai_scene = Ai \<and> gameStatus ai_scene = Playing
   \<and> filter (canPlay ai_scene) (aiHand ai_scene)
       = [mkCard 10 Diamonds ''A'', mkCard 12 Clubs ''9'', mkCard 13 Clubs ''4'']
   \<and> discardPile (aiLogic ai_scene) = discardPile ai_scene @ [mkCard 12 Clubs ''9'']
   \<and> (\<exists>i<length (aiHand ai_scene).
         discardPile (aiLogic ai_scene) = discardPile ai_scene @ [aiHand ai_scene ! i]
         \<and> canPlay ai_scene (aiHand ai_scene ! i)
         \<and> rank (aiHand ai_scene ! i) \<noteq> ''A''
         \<and> (\<forall>j<i. \<not> (canPlay ai_scene (aiHand ai_scene ! j)
                        \<and> rank (aiHand ai_scene ! j) \<noteq> ''A'')))"
proof -
  have h: "turn ai_scene = Ai" "gameStatus ai_scene = Playing"
    and p: "filter (canPlay ai_scene) (aiHand ai_scene)
              = [mkCard 10 Diamonds ''A'', mkCard 12 Clubs ''9'', mkCard 13 Clubs ''4'']"
    and d: "discardPile (aiLogic ai_scene) = discardPile ai_scene @ [mkCard 12 Clubs ''9'']"
    and x: "mkCard 12 Clubs ''9'' \<in> set (aiHand ai_scene)"
      "canPlay ai_scene (mkCard 12 Clubs ''9'')" "rank (mkCard 12 Clubs ''9'') \<noteq> ''A''"
    by code_simp+
  have ne: "filter (canPlay ai_scene) (aiHand ai_scene) \<noteq> []" using p by simp
  have "\<exists>x\<in>set (aiHand ai_scene). canPlay ai_scene x \<and> rank x \<noteq> ''A''"
    using x by blast
  with opponent_choice [OF h ne] h p d show ?thesis by auto
qed

text \<open>
  Claim C8. When the card the opponent plays is an Ace, the suit to follow becomes a suit
  of which the opponent's hand, as it is after the play, holds at least as many cards as
  of any other suit; when that hand is empty, it becomes hearts.
\<close>

theorem opponent_wild_suit:
  assumes "turn g = Ai" and "gameStatus g = Playing"
    and "filter (canPlay g) (aiHand g) \<noteq> []"
    and "rank (last (discardPile (aiLogic g))) = ''A''"
  shows "(aiHand (aiLogic g) = [] \<longrightarrow> currentSuit (aiLogic g) = Some Hearts)
         \<and> (aiHand (aiLogic g) \<noteq> [] \<longrightarrow>
              (\<exists>s. currentSuit (aiLogic g) = Some s
                 \<and> s \<in> suit ` set (aiHand (aiLogic g))
                 \<and> (\<forall>t. length (filter (\<lambda>c. suit c = t) (aiHand (aiLogic g)))
                          \<le> length (filter (\<lambda>c. suit c = s) (aiHand (aiLogic g))))))"
proof -
  have "rank (cardToPlay (filter (canPlay g) (aiHand g))) = ''A''"
    using assms(4) aiLogic_fields(5) [OF assms(1-3)] by simp
  then have cur: "currentSuit (aiLogic g) = Some (bestSuit (aiHand (aiLogic g)))"
    using aiLogic_suit [OF assms(1-3)] by simp
  show ?thesis
  proof (cases "aiHand (aiLogic g) = []")
    case True
    with cur show ?thesis by (simp add: bestSuit_Nil)
  next
    case False
    from bestSuit_most [OF False] cur False show ?thesis by blast
  qed
qed

theorem opponent_wild_suit_witness:
  "turn ai_wild_scene = Ai \<and> gameStatus ai_wild_scene = Playing
   \<and> filter (canPlay ai_wild_scene) (aiHand ai_wild_scene) \<noteq> []
   \<and> rank (last (discardPile (aiLogic ai_wild_scene))) = ''A''
   \<and> aiHand (aiLogic ai_wild_scene)
       = [mkCard 11 Hearts ''3'', mkCard 14 Spades ''4'', mkCard 15 Spades ''5'']
   \<and> currentSuit (aiLogic ai_wild_scene) = Some Spades
   \<and> (\<forall>t. length (filter (\<lambda>c. suit c = t) (aiHand (aiLogic ai_wild_scene)))
            \<le> length (filter (\<lambda>c. suit c = Spades) (aiHand (aiLogic ai_wild_scene))))
   \<and> turn ai_last_ace_scene = Ai \<and> gameStatus ai_last_ace_scene = Playing
   \<and> filter (canPlay ai_last_ace_scene) (aiHand ai_last_ace_scene) \<noteq> []
   \<and> rank (last (discardPile (aiLogic ai_last_ace_scene))) = ''A''
   \<and> aiHand (aiLogic ai_last_ace_scene) = []
   \<and> currentSuit (aiLogic ai_last_ace_scene) = Some Hearts"
proof -
  have h1: "turn ai_wild_scene = Ai" "gameStatus ai_wild_scene = Playing"
    "filter (canPlay ai_wild_scene) (aiHand ai_wild_scene) \<noteq> []"
    "rank (last (discardPile (aiLogic ai_wild_scene))) = ''A''"
    and e1: "aiHand (aiLogic ai_wild_scene)
       = [mkCard 11 Hearts ''3'', mkCard 14 Spades ''4'', mkCard 15 Spades ''5'']"
      "currentSuit (aiLogic ai_wild_scene) = Some Spades"
    by code_simp+
  have h2: "turn ai_last_ace_scene = Ai" "gameStatus ai_last_ace_scene = Playing"
    "filter (canPlay ai_last_ace_scene) (aiHand ai_last_ace_scene) \<noteq> []"
    "rank (last (discardPile (aiLogic ai_last_ace_scene))) = ''A''"
    and e2: "aiHand (aiLogic ai_last_ace_scene) = []"
    by code_simp+
  from opponent_wild_suit [OF h1] e1
  have "\<forall>t. length (filter (\<lambda>c. suit c = t) (aiHand (aiLogic ai_wild_scene)))
            \<le> length (filter (\<lambda>c. suit c = Spades) (aiHand (aiLogic ai_wild_scene)))"
    by auto
  moreover from opponent_wild_suit [OF h2] e2
  have "currentSuit (aiLogic ai_last_ace_scene) = Some Hearts" by simp
  ultimately show ?thesis using h1 e1 h2 e2 by simp
qed

text \<open>
  Claim C9. Dealing a deck of 52 cards, on a start or a restart from any state, succeeds
  and gives the human the first 10 cards, the opponent the next 10, makes the 21st card
  the only card of the discard pile and its suit the suit to follow, and leaves the
  other 31 cards, in their order, as the draw pile: 10 + 10 + 1 + 31 = 52, with the four
  zones together being the deck.
\<close>

theorem initGame_deal:
  assumes "length fullDeck = 52"
  shows "\<exists>g'. initGame fullDeck g = Inr g'
           \<and> playerHand g' = take 10 fullDeck
           \<and> aiHand g' = take 10 (drop 10 fullDeck)
           \<and> discardPile g' = [fullDeck ! 20]
           \<and> currentSuit g' = Some (suit (fullDeck ! 20))
           \<and> deck g' = drop 21 fullDeck
           \<and> length (playerHand g') = 10
           \<and> length (aiHand g') = 10
           \<and> length (discardPile g') = 1
           \<and> length (deck g') = 31
           \<and> length (playerHand g') + length (aiHand g') + length (discardPile g')
                + length (deck g') = 52
           \<and> playerHand g' @ aiHand g' @ discardPile g' @ deck g' = fullDeck
           \<and> turn g' = Player \<and> gameStatus g' = Playing
           \<and> pendingAceCard g' = None \<and> \<not> showSuitPicker g'"
  using assms deal_split [of fullDeck]
  by (simp add: initGame_def slice_def slice_from_def Let_def)

theorem initGame_deal_witness:
  "length sample_deck = 52
   \<and> (\<exists>g'. initGame sample_deck last_card_scene = Inr g'
         \<and> map cid (playerHand g') = [0, 1, 2, 3, 4, 5, 6, 7, 8, 9]
         \<and> map cid (aiHand g') = [10, 11, 12, 13, 14, 15, 16, 17, 18, 19]
         \<and> discardPile g' = [mkCard 20 Diamonds ''7'']
         \<and> currentSuit g' = Some Diamonds
         \<and> length (deck g') = 31
         \<and> playerHand g' @ aiHand g' @ discardPile g' @ deck g' = sample_deck)"
proof -
  have len: "length sample_deck = 52" by (rule sample_deck_facts)
  from initGame_deal [OF len, of last_card_scene] obtain g' where
    g': "initGame sample_deck last_card_scene = Inr g'"
      "playerHand g' = take 10 sample_deck"
      "aiHand g' = take 10 (drop 10 sample_deck)"
      "discardPile g' = [sample_deck ! 20]"
      "currentSuit g' = Some (suit (sample_deck ! 20))"
      "length (deck g') = 31"
      "playerHand g' @ aiHand g' @ discardPile g' @ deck g' = sample_deck"
    by blast
  have e: "map cid (take 10 sample_deck) = [0, 1, 2, 3, 4, 5, 6, 7, 8, 9]"
    "map cid (take 10 (drop 10 sample_deck)) = [10, 11, 12, 13, 14, 15, 16, 17, 18, 19]"
    "sample_deck ! 20 = mkCard 20 Diamonds ''7''"
    "suit (mkCard 20 Diamonds ''7'') = Diamonds"
    by code_simp+
  show ?thesis using len g' e by simp
qed

text \<open>
  Claim C10. On the human's turn in a game being played, a draw from a draw pile that is
  not empty takes the first card off the draw pile and adds exactly that card to the
  human's hand; the discard pile, the suit to follow, the opponent's hand, the game
  status and the pending Ace with its suit picker are as before. Beside the two zones,
  the handler writes only the status message and the turn owner.
\<close>

theorem handleDraw_frame:
  assumes "turn g = Player" and "gameStatus g = Playing" and "deck g \<noteq> []"
  shows "deck (handleDraw g) = tl (deck g)
         \<and> playerHand (handleDraw g) = playerHand g @ [hd (deck g)]
         \<and> discardPile (handleDraw g) = discardPile g
         \<and> currentSuit (handleDraw g) = currentSuit g
         \<and> aiHand (handleDraw g) = aiHand g
         \<and> gameStatus (handleDraw g) = gameStatus g
         \<and> pendingAceCard (handleDraw g) = pendingAceCard g
         \<and> showSuitPicker (handleDraw g) = showSuitPicker g
         \<and> (\<exists>m t. handleDraw g =
                      g\<lparr> playerHand := playerHand g @ [hd (deck g)], deck := tl (deck g),
                         message := m, turn := t \<rparr>)"
proof (cases "deck g")
  case Nil
  with assms(3) show ?thesis by simp
next
  case (Cons c cs)
  let ?m = "''You drew a '' @ rank c @ '' of '' @ suit_str (suit c) @ ''.''"
  have "handleDraw g =
          g\<lparr> playerHand := playerHand g @ [c], deck := cs, message := ?m,
             turn := (if canPlay g c then Player else Ai) \<rparr>"
  proof (cases "canPlay g c")
    case True
    have "g\<lparr> turn := Player \<rparr> = g" using assms(1) by simp
    then show ?thesis using assms(1,2) Cons True by (simp add: handleDraw_def Let_def)
  next
    case False
    then show ?thesis using assms(1,2) Cons by (simp add: handleDraw_def Let_def)
  qed
  then have "\<exists>m t. handleDraw g =
               g\<lparr> playerHand := playerHand g @ [hd (deck g)], deck := tl (deck g),
                  message := m, turn := t \<rparr>"
    using Cons by (metis list.sel(1,3))
  moreover have "deck (handleDraw g) = tl (deck g)
         \<and> playerHand (handleDraw g) = playerHand g @ [hd (deck g)]
         \<and> discardPile (handleDraw g) = discardPile g
         \<and> currentSuit (handleDraw g) = currentSuit g
         \<and> aiHand (handleDraw g) = aiHand g
         \<and> gameStatus (handleDraw g) = gameStatus g
         \<and> pendingAceCard (handleDraw g) = pendingAceCard g
         \<and> showSuitPicker (handleDraw g) = showSuitPicker g"
    using assms(1,2) Cons by (simp add: handleDraw_def Let_def)
  ultimately show ?thesis by blast
qed

theorem handleDraw_frame_witness:
  "turn human_scene = Player \<and> gameStatus human_scene = Playing \<and> deck human_scene \<noteq> []
   \<and> deck (handleDraw human_scene) = [mkCard 21 Clubs ''2'']
   \<and> playerHand (handleDraw human_scene)
       = [mkCard 1 Spades ''A'', mkCard 2 Hearts ''7'', mkCard 20 Diamonds ''5'']
   \<and> discardPile (handleDraw human_scene) = discardPile human_scene
   \<and> currentSuit (handleDraw human_scene) = currentSuit human_scene
   \<and> aiHand (handleDraw human_scene) = aiHand human_scene
   \<and> gameStatus (handleDraw human_scene) = gameStatus human_scene
   \<and> pendingAceCard (handleDraw human_scene) = pendingAceCard human_scene
   \<and> showSuitPicker (handleDraw human_scene) = showSuitPicker human_scene"
proof -
  have h: "turn human_scene = Player" "gameStatus human_scene = Playing"
    "deck human_scene \<noteq> []"
    and e: "tl (deck human_scene) = [mkCard 21 Clubs ''2'']"
      "playerHand human_scene @ [hd (deck human_scene)]
         = [mkCard 1 Spades ''A'', mkCard 2 Hearts ''7'', mkCard 20 Diamonds ''5'']"
    by code_simp+
  show ?thesis using handleDraw_frame [OF h] h e by simp
qed

end
